theory Spec2Isabelle
  imports Complex_Main "HOL-Library.Multiset"
begin

section \<open>Python values used by \<open>main.py\<close>\<close>

text \<open>
  The exceptions that the modelled code can raise.  \<open>ValueError\<close> is the only one that
  \<open>main.py\<close> ever catches (in \<open>interpolate_exchange_rate\<close> and in \<open>get_points\<close>).
\<close>

datatype pyexc = ValueError | ZeroDivisionError | OverflowError | IndexError

subsection \<open>Binary64 floating point\<close>

text \<open>
  A Python \<open>float\<close> is an IEEE binary64 number.  \<open>Finite s m e\<close> stands for
  \<open>(-1)^s * m * 2^e\<close>; the operations below always produce the IEEE encoding
  (\<open>m < 2^53\<close>, \<open>-1074 \<le> e \<le> 971\<close>, and \<open>2^52 \<le> m\<close> unless \<open>e = -1074\<close>), so that equal
  numbers are equal terms.  Every operation rounds to nearest, ties to even.
\<close>

datatype pyfloat = Finite bool int int | Infinity bool | NaN

function bitlen :: "int \<Rightarrow> int" where
  "bitlen n = (if n \<le> 0 then 0 else 1 + bitlen (n div 2))"
  by pat_completeness auto
termination
  by (relation "measure nat") auto

declare bitlen.simps [simp del]

definition floor_log2 :: "int \<Rightarrow> int \<Rightarrow> int" where
  \<comment> \<open>\<open>\<lfloor>log\<^sub>2 (p / q)\<rfloor>\<close> for positive \<open>p\<close> and \<open>q\<close>\<close>
  "floor_log2 p q =
     (let d = bitlen p - bitlen q
      in if q * 2 ^ nat d \<le> p * 2 ^ nat (- d) then d else d - 1)"

definition round_to_double :: "bool \<Rightarrow> int \<Rightarrow> int \<Rightarrow> int \<Rightarrow> pyfloat" where
  \<comment> \<open>the binary64 number nearest to \<open>(-1)^s * (p / q) * 2^k\<close>, for \<open>p \<ge> 0\<close> and \<open>q > 0\<close>\<close>
  "round_to_double s p q k =
     (if p = 0 then Finite s 0 (- 1074)
      else
        let e = floor_log2 p q + k;
            u = max e (- 1022) - 52;
            P = p * 2 ^ nat (k - u);
            Q = q * 2 ^ nat (u - k);
            n = P div Q;
            r = P mod Q;
            n' = (if Q < 2 * r \<or> (2 * r = Q \<and> odd n) then n + 1 else n)
        in if n' = 2 ^ 53
           then (if 971 < u + 1 then Infinity s else Finite s (2 ^ 52) (u + 1))
           else (if 971 < u then Infinity s else Finite s n' u))"

definition valof :: "pyfloat \<Rightarrow> rat" where
  "valof f = (case f of
       Finite s m e \<Rightarrow>
         (if s then - 1 else 1) * of_int m *
         (if 0 \<le> e then 2 ^ nat e else 1 / 2 ^ nat (- e))
     | _ \<Rightarrow> 0)"

definition is_zero :: "pyfloat \<Rightarrow> bool" where
  "is_zero f = (case f of Finite s m e \<Rightarrow> m = 0 | _ \<Rightarrow> False)"

definition float_of_int :: "int \<Rightarrow> pyexc + pyfloat" where
  \<comment> \<open>the implicit conversion of an \<open>int\<close> operand of a float operation\<close>
  "float_of_int n =
     (case round_to_double (n < 0) \<bar>n\<bar> 1 0 of
        Infinity s \<Rightarrow> Inl OverflowError
      | f \<Rightarrow> Inr f)"

definition int_true_divide :: "int \<Rightarrow> int \<Rightarrow> pyexc + pyfloat" where
  \<comment> \<open>\<open>a / b\<close> on two Python ints: the correctly rounded quotient\<close>
  "int_true_divide a b =
     (if b = 0 then Inl ZeroDivisionError
      else case round_to_double ((a < 0) \<noteq> (b < 0)) \<bar>a\<bar> \<bar>b\<bar> 0 of
        Infinity s \<Rightarrow> Inl OverflowError
      | f \<Rightarrow> Inr f)"

definition float_of_Fraction :: "rat \<Rightarrow> pyexc + pyfloat" where
  \<comment> \<open>\<open>Fraction.__float__\<close>: \<open>numerator / denominator\<close>\<close>
  "float_of_Fraction y = (case quotient_of y of (a, b) \<Rightarrow> int_true_divide a b)"

definition float_of_literal :: "rat \<Rightarrow> pyfloat" where
  \<comment> \<open>a float literal, or \<open>float(text)\<close>, for a decimal numeral of exact value \<open>q\<close>;
     a numeral too large in magnitude gives an infinity, not an exception\<close>
  "float_of_literal q =
     (case quotient_of q of (a, b) \<Rightarrow> round_to_double (a < 0) \<bar>a\<bar> b 0)"

fun fmul :: "pyfloat \<Rightarrow> pyfloat \<Rightarrow> pyfloat" where
  "fmul (Finite s1 m1 e1) (Finite s2 m2 e2) = round_to_double (s1 \<noteq> s2) (m1 * m2) 1 (e1 + e2)"
| "fmul (Finite s1 m1 e1) (Infinity s2) = (if m1 = 0 then NaN else Infinity (s1 \<noteq> s2))"
| "fmul (Infinity s1) (Finite s2 m2 e2) = (if m2 = 0 then NaN else Infinity (s1 \<noteq> s2))"
| "fmul (Infinity s1) (Infinity s2) = Infinity (s1 \<noteq> s2)"
| "fmul NaN _ = NaN"
| "fmul _ NaN = NaN"

fun fdiv :: "pyfloat \<Rightarrow> pyfloat \<Rightarrow> pyexc + pyfloat" where
  "fdiv (Finite s1 m1 e1) (Finite s2 m2 e2) =
     (if m2 = 0 then Inl ZeroDivisionError
      else Inr (round_to_double (s1 \<noteq> s2) m1 m2 (e1 - e2)))"
| "fdiv (Infinity s1) (Finite s2 m2 e2) =
     (if m2 = 0 then Inl ZeroDivisionError else Inr (Infinity (s1 \<noteq> s2)))"
| "fdiv NaN (Finite s2 m2 e2) = (if m2 = 0 then Inl ZeroDivisionError else Inr NaN)"
| "fdiv (Finite s1 m1 e1) (Infinity s2) = Inr (Finite (s1 \<noteq> s2) 0 (- 1074))"
| "fdiv (Infinity s1) (Infinity s2) = Inr NaN"
| "fdiv NaN (Infinity s2) = Inr NaN"
| "fdiv _ NaN = Inr NaN"

fun fadd :: "pyfloat \<Rightarrow> pyfloat \<Rightarrow> pyfloat" where
  "fadd (Finite s1 m1 e1) (Finite s2 m2 e2) =
     (if m1 = 0 \<and> m2 = 0 then Finite (s1 \<and> s2) 0 (- 1074)
      else if m2 = 0 then Finite s1 m1 e1
      else if m1 = 0 then Finite s2 m2 e2
      else
        let e = min e1 e2;
            a = (if s1 then - 1 else 1) * m1 * 2 ^ nat (e1 - e);
            b = (if s2 then - 1 else 1) * m2 * 2 ^ nat (e2 - e);
            t = a + b
        in if t = 0 then Finite False 0 (- 1074)
           else round_to_double (t < 0) \<bar>t\<bar> 1 e)"
| "fadd (Finite s1 m1 e1) (Infinity s2) = Infinity s2"
| "fadd (Infinity s1) (Finite s2 m2 e2) = Infinity s1"
| "fadd (Infinity s1) (Infinity s2) = (if s1 = s2 then Infinity s1 else NaN)"
| "fadd NaN _ = NaN"
| "fadd _ NaN = NaN"


section \<open>\<open>ForexData\<close>: the numeric interpolation\<close>

subsection \<open>\<open>lagrange_interpolation\<close>\<close>

text \<open>
  \<open>ForexData.lagrange_interpolation(x, x_data, y_data)\<close> is called by the program with an
  \<open>int\<close> abscissa (a day number), a list of \<open>int\<close> day numbers and a list of \<open>float\<close> rates.
  The two products are therefore exact Python integers; floating point enters in
  \<open>y_data[i] * numerator / denominator\<close>, where each \<open>int\<close> operand is first converted to
  a float (\<open>OverflowError\<close> when it is too large), and in \<open>result += ...\<close>.  The result
  is the integer \<open>0\<close> it was initialised with when the loop body never runs.
\<close>

datatype pynum = PyInt int | PyFloat pyfloat

definition product_step :: "int \<Rightarrow> int list \<Rightarrow> nat \<Rightarrow> nat \<Rightarrow> int \<times> int \<Rightarrow> int \<times> int" where
  \<comment> \<open>one pass of the body of \<open>for j in range(n)\<close>, on \<open>(numerator, denominator)\<close>\<close>
  "product_step x x_data i j nd =
     (case nd of (numerator, denominator) \<Rightarrow>
        if i \<noteq> j
        then (numerator * (x - x_data ! j), denominator * (x_data ! i - x_data ! j))
        else (numerator, denominator))"

definition products :: "int \<Rightarrow> int list \<Rightarrow> nat \<Rightarrow> int \<times> int" where
  "products x x_data i = fold (product_step x x_data i) [0..<length x_data] (1, 1)"

definition lagrange_term :: "int \<Rightarrow> int list \<Rightarrow> pyfloat list \<Rightarrow> nat \<Rightarrow> pyexc + pyfloat" where
  \<comment> \<open>\<open>y_data[i] * numerator / denominator\<close>\<close>
  "lagrange_term x x_data y_data i =
     (case products x x_data i of (numerator, denominator) \<Rightarrow>
        if length y_data \<le> i then Inl IndexError
        else case float_of_int numerator of
          Inl e \<Rightarrow> Inl e
        | Inr fn \<Rightarrow>
            (case float_of_int denominator of
               Inl e \<Rightarrow> Inl e
             | Inr fd \<Rightarrow> fdiv (fmul (y_data ! i) fn) fd))"

definition add_float :: "pynum \<Rightarrow> pyfloat \<Rightarrow> pyexc + pynum" where
  \<comment> \<open>\<open>result += t\<close> for a float \<open>t\<close>\<close>
  "add_float result t =
     (case result of
        PyInt a \<Rightarrow> (case float_of_int a of Inl e \<Rightarrow> Inl e | Inr fa \<Rightarrow> Inr (PyFloat (fadd fa t)))
      | PyFloat r \<Rightarrow> Inr (PyFloat (fadd r t)))"

fun lagrange_loop :: "int \<Rightarrow> int list \<Rightarrow> pyfloat list \<Rightarrow> nat list \<Rightarrow> pynum \<Rightarrow> pyexc + pynum" where
  "lagrange_loop x x_data y_data [] result = Inr result"
| "lagrange_loop x x_data y_data (i # is) result =
     (case lagrange_term x x_data y_data i of
        Inl e \<Rightarrow> Inl e
      | Inr t \<Rightarrow>
          (case add_float result t of
             Inl e \<Rightarrow> Inl e
           | Inr r \<Rightarrow> lagrange_loop x x_data y_data is r))"

definition lagrange_interpolation :: "int \<Rightarrow> int list \<Rightarrow> pyfloat list \<Rightarrow> pyexc + pynum" where
  "lagrange_interpolation x x_data y_data =
     lagrange_loop x x_data y_data [0..<length x_data] (PyInt 0)"


subsection \<open>\<open>date_to_num\<close>\<close>

text \<open>
  A Python \<open>str\<close> is a sequence of Unicode code points.  Text written in this theory is
  ASCII: \<open>ascii ''2002-01-01''\<close> is the \<open>str\<close> with those ten characters.
\<close>

type_synonym str = "nat list"

definition ascii :: "string \<Rightarrow> str" where
  "ascii s = map of_char s"

text \<open>
  \<open>datetime.strptime(date_str, "%Y-%m-%d")\<close> matches the whole string against the regular
  expression that the standard library builds for this format,
  \<^verbatim>\<open>(\d\d\d\d)-(1[0-2]|0[1-9]|[1-9])-(3[0-1]|[1-2]\d|0[1-9]|[1-9]| [1-9])\<close>,
  the alternatives being tried from left to right, converts the three groups with \<open>int\<close>,
  and then constructs a \<open>datetime\<close>, which rejects year \<open>0\<close> and days past the end of the
  month.  Every failure is a \<open>ValueError\<close>.

  On a \<open>str\<close>, \<open>\d\<close> matches every character of the Unicode category \<open>Nd\<close>, and \<open>int\<close>
  reads each with its decimal value; the bracketed classes such as \<open>[1-9]\<close> match ASCII
  characters only.  The decimal digits of Unicode come in runs of ten consecutive code
  points, from the digit zero of a script to its digit nine; \<open>unicode_decimal_zeros\<close>
  lists the 66 digits zero of Unicode 14.0.  A later version of the character database
  adds runs to the list; nothing proved below depends on a run other than the ASCII one.

  The difference of two \<open>datetime\<close>s at midnight has as \<open>.days\<close> the difference of their
  proleptic Gregorian ordinals.
\<close>

type_synonym date = "int \<times> int \<times> int"

definition unicode_decimal_zeros :: "nat list" where
  "unicode_decimal_zeros =
     [48, 1632, 1776, 1984, 2406, 2534, 2662, 2790, 2918, 3046, 3174, 3302, 3430, 3558, 3664,
      3792, 3872, 4160, 4240, 6112, 6160, 6470, 6608, 6784, 6800, 6992, 7088, 7232, 7248,
      42528, 43216, 43264, 43472, 43504, 43600, 44016, 65296, 66720, 68912, 69734, 69872,
      69942, 70096, 70384, 70736, 70864, 71248, 71360, 71472, 71904, 72016, 72784, 73040,
      73120, 92768, 92864, 93008, 120782, 120792, 120802, 120812, 120822, 123200, 123632,
      125264, 130032]"

definition decimal_value :: "nat \<Rightarrow> int option" where
  \<comment> \<open>the decimal value of a character of category \<open>Nd\<close>, \<open>None\<close> for any other character\<close>
  "decimal_value c =
     (case filter (\<lambda>z. z \<le> c \<and> c < z + 10) unicode_decimal_zeros of
        [] \<Rightarrow> None
      | z # _ \<Rightarrow> Some (int c - int z))"

definition digit :: "nat \<Rightarrow> bool" where
  \<comment> \<open>\<open>\d\<close>\<close>
  "digit c = (decimal_value c \<noteq> None)"

definition digit_value :: "nat \<Rightarrow> int" where
  "digit_value c = (case decimal_value c of Some v \<Rightarrow> v | None \<Rightarrow> 0)"

definition in_range :: "char \<Rightarrow> char \<Rightarrow> nat \<Rightarrow> bool" where
  \<comment> \<open>the character class \<open>[lo-hi]\<close>\<close>
  "in_range lo hi c = (of_char lo \<le> c \<and> c \<le> of_char hi)"

definition month_alternatives :: "str \<Rightarrow> (int \<times> str) list" where
  \<comment> \<open>the ways \<open>1[0-2]|0[1-9]|[1-9]\<close> matches a prefix, in order, with the rest of the string\<close>
  "month_alternatives s =
     (case s of
        a # b # r \<Rightarrow>
          (if a = of_char CHR ''1'' \<and> in_range CHR ''0'' CHR ''2'' b
           then [(10 + digit_value b, r)] else []) @
          (if a = of_char CHR ''0'' \<and> in_range CHR ''1'' CHR ''9'' b
           then [(digit_value b, r)] else []) @
          (if in_range CHR ''1'' CHR ''9'' a then [(digit_value a, b # r)] else [])
      | [a] \<Rightarrow> (if in_range CHR ''1'' CHR ''9'' a then [(digit_value a, [])] else [])
      | [] \<Rightarrow> [])"

definition day_alternatives :: "str \<Rightarrow> (int \<times> str) list" where
  \<comment> \<open>the same for \<open>3[0-1]|[1-2]\d|0[1-9]|[1-9]| [1-9]\<close>\<close>
  "day_alternatives s =
     (case s of
        a # b # r \<Rightarrow>
          (if a = of_char CHR ''3'' \<and> in_range CHR ''0'' CHR ''1'' b
           then [(30 + digit_value b, r)] else []) @
          (if in_range CHR ''1'' CHR ''2'' a \<and> digit b
           then [(10 * digit_value a + digit_value b, r)] else []) @
          (if a = of_char CHR ''0'' \<and> in_range CHR ''1'' CHR ''9'' b
           then [(digit_value b, r)] else []) @
          (if in_range CHR ''1'' CHR ''9'' a then [(digit_value a, b # r)] else []) @
          (if a = of_char CHR '' '' \<and> in_range CHR ''1'' CHR ''9'' b
           then [(digit_value b, r)] else [])
      | [a] \<Rightarrow> (if in_range CHR ''1'' CHR ''9'' a then [(digit_value a, [])] else [])
      | [] \<Rightarrow> [])"

definition is_leap :: "int \<Rightarrow> bool" where
  "is_leap year = (year mod 4 = 0 \<and> (year mod 100 \<noteq> 0 \<or> year mod 400 = 0))"

definition days_in_month :: "int \<Rightarrow> int \<Rightarrow> int" where
  "days_in_month year month =
     (if month = 2 then (if is_leap year then 29 else 28)
      else if month \<in> {4, 6, 9, 11} then 30 else 31)"

definition valid_date :: "date \<Rightarrow> bool" where
  \<comment> \<open>the triples that the \<open>datetime\<close> constructor accepts\<close>
  "valid_date d =
     (case d of (year, month, day) \<Rightarrow>
        1 \<le> year \<and> year \<le> 9999 \<and> 1 \<le> month \<and> month \<le> 12 \<and>
        1 \<le> day \<and> day \<le> days_in_month year month)"

definition strptime :: "str \<Rightarrow> pyexc + date" where
  "strptime s =
     (case s of
        y1 # y2 # y3 # y4 # r \<Rightarrow>
          if digit y1 \<and> digit y2 \<and> digit y3 \<and> digit y4
          then
            (case [(m, d, r3).
                     (m, r1) \<leftarrow> month_alternatives (tl r), r \<noteq> [] \<and> hd r = of_char CHR ''-'',
                     r1 \<noteq> [] \<and> hd r1 = of_char CHR ''-'',
                     (d, r3) \<leftarrow> day_alternatives (tl r1)] of
               [] \<Rightarrow> Inl ValueError
             | (m, d, r3) # _ \<Rightarrow>
                 let year = 1000 * digit_value y1 + 100 * digit_value y2 +
                            10 * digit_value y3 + digit_value y4
                 in if r3 = [] \<and> valid_date (year, m, d) then Inr (year, m, d)
                    else Inl ValueError)
          else Inl ValueError
      | _ \<Rightarrow> Inl ValueError)"

definition days_before_year :: "int \<Rightarrow> int" where
  "days_before_year year =
     (let y = year - 1 in y * 365 + y div 4 - y div 100 + y div 400)"

definition days_before_month :: "int \<Rightarrow> int \<Rightarrow> int" where
  "days_before_month year month =
     sum_list (map (days_in_month year) [1..month - 1])"

definition ymd2ord :: "date \<Rightarrow> int" where
  "ymd2ord d =
     (case d of (year, month, day) \<Rightarrow>
        days_before_year year + days_before_month year month + day)"

definition ref_date :: date where
  "ref_date = (2002, 1, 1)"

definition days_since_ref :: "date \<Rightarrow> int" where
  \<comment> \<open>\<open>(target_date - ref_date).days\<close>\<close>
  "days_since_ref target_date = ymd2ord target_date - ymd2ord ref_date"

definition date_to_num :: "str \<Rightarrow> pyexc + int" where
  "date_to_num date_str =
     (case strptime date_str of
        Inl e \<Rightarrow> Inl e
      | Inr target_date \<Rightarrow> Inr (days_since_ref target_date))"

subsection \<open>\<open>interpolate_exchange_rate\<close> and the series of the application\<close>

record ForexData =
  dates :: "str list"
  exchange_rates :: "pyfloat list"
  date_values :: "int list"

fun sequence :: "(pyexc + 'a) list \<Rightarrow> pyexc + 'a list" where
  \<comment> \<open>a list comprehension whose elements may raise: the first exception ends it\<close>
  "sequence [] = Inr []"
| "sequence (Inl e # rs) = Inl e"
| "sequence (Inr v # rs) = (case sequence rs of Inl e \<Rightarrow> Inl e | Inr vs \<Rightarrow> Inr (v # vs))"

definition ForexData_init :: "str list \<Rightarrow> pyfloat list \<Rightarrow> pyexc + ForexData" where
  \<comment> \<open>\<open>ForexData.__init__\<close>\<close>
  "ForexData_init ds rates =
     (case sequence (map date_to_num ds) of
        Inl e \<Rightarrow> Inl e
      | Inr vs \<Rightarrow> Inr \<lparr>dates = ds, exchange_rates = rates, date_values = vs\<rparr>)"

definition digit_char :: "int \<Rightarrow> nat" where
  "digit_char d = nat (48 + d)"

function decimal :: "int \<Rightarrow> str" where
  "decimal n = (if n < 10 then [digit_char n] else decimal (n div 10) @ [digit_char (n mod 10)])"
  by pat_completeness auto
termination
  by (relation "measure nat") auto

declare decimal.simps [simp del]

definition format_4f :: "pyfloat \<Rightarrow> str" where
  \<comment> \<open>the format specification \<open>.4f\<close>: the exact value rounded to four decimals, ties to even\<close>
  "format_4f f =
     (case f of
        NaN \<Rightarrow> ascii ''nan''
      | Infinity s \<Rightarrow> ascii (if s then ''-inf'' else ''inf'')
      | Finite s m e \<Rightarrow>
          let P = m * 10000 * 2 ^ nat e;
              Q = 2 ^ nat (- e);
              n = P div Q;
              r = P mod Q;
              n' = (if Q < 2 * r \<or> (2 * r = Q \<and> odd n) then n + 1 else n)
          in ascii (if s then ''-'' else []) @ decimal (n' div 10000) @ ascii ''.'' @
             [digit_char (n' div 1000 mod 10), digit_char (n' div 100 mod 10),
              digit_char (n' div 10 mod 10), digit_char (n' mod 10)])"

definition format_number :: "pynum \<Rightarrow> pyexc + str" where
  \<comment> \<open>\<open>{target_value:.4f}\<close>; an \<open>int\<close> is converted to a float first\<close>
  "format_number v =
     (case v of
        PyFloat f \<Rightarrow> Inr (format_4f f)
      | PyInt n \<Rightarrow> (case float_of_int n of Inl e \<Rightarrow> Inl e | Inr f \<Rightarrow> Inr (format_4f f)))"

definition invalid_date_message :: str where
  "invalid_date_message = ascii ''Invalid date format. Please enter a date in YYYY-MM-DD format.''"

definition catch_ValueError :: "pyexc + str \<Rightarrow> pyexc + str" where
  \<comment> \<open>\<open>except ValueError: return "Invalid date format. ..."\<close>; any other exception propagates\<close>
  "catch_ValueError r =
     (case r of
        Inl e \<Rightarrow> (if e = ValueError then Inr invalid_date_message else Inl e)
      | Inr msg \<Rightarrow> Inr msg)"

definition interpolate_exchange_rate :: "ForexData \<Rightarrow> str \<Rightarrow> pyexc + str" where
  "interpolate_exchange_rate self target_date_str =
     catch_ValueError
       (case date_to_num target_date_str of
          Inl e \<Rightarrow> Inl e
        | Inr x \<Rightarrow>
            (case lagrange_interpolation x (date_values self) (exchange_rates self) of
               Inl e \<Rightarrow> Inl e
             | Inr target_value \<Rightarrow>
                 (case format_number target_value of
                    Inl e \<Rightarrow> Inl e
                  | Inr digits \<Rightarrow>
                      Inr (ascii ''Interpolated exchange rate for '' @ target_date_str @ ascii '': '' @ digits))))"

text \<open>The data that \<open>ForexLagrangeApp.__init__\<close> passes to \<open>ForexData\<close>.\<close>

definition app_dates :: "str list" where
  "app_dates = map ascii
     [''2002-01-01'', ''2002-02-01'', ''2002-03-01'', ''2002-04-01'', ''2002-05-01'', ''2002-06-01'',
      ''2002-07-01'', ''2002-08-01'', ''2002-09-01'', ''2002-10-01'', ''2002-11-01'', ''2002-12-01'',
      ''2003-01-01'', ''2003-02-01'', ''2003-03-01'', ''2003-04-01'', ''2003-05-01'', ''2003-06-01'',
      ''2003-07-01'', ''2003-08-01'', ''2003-09-01'', ''2003-10-01'', ''2003-11-01'', ''2003-12-01'']"

definition app_rate_literals :: "rat list" where
  "app_rate_literals =
     [26.5850, 26.2703, 26.7617, 27.2878, 27.3863, 28.6447, 28.0576, 28.0241, 28.5094, 29.0770,
      29.9216, 30.1003, 31.1729, 32.1087, 32.8384, 32.1492, 34.0153, 35.4584,
      35.5996, 35.8302, 36.3606, 38.1060, 39.6118, 40.8515]"

definition app_exchange_rates :: "pyfloat list" where
  "app_exchange_rates = map float_of_literal app_rate_literals"

definition forex_data :: "pyexc + ForexData" where
  "forex_data = ForexData_init app_dates app_exchange_rates"

definition calculate_forex_rate :: "str \<Rightarrow> pyexc + str" where
  \<comment> \<open>the text that \<open>calculate_forex_rate\<close> shows for the content of the date field\<close>
  "calculate_forex_rate target_date_str =
     (case forex_data of
        Inl e \<Rightarrow> Inl e
      | Inr self \<Rightarrow> interpolate_exchange_rate self target_date_str)"

section \<open>\<open>ForexLagrangeApp\<close>: the symbolic interpolation\<close>

subsection \<open>Polynomials with rational coefficients\<close>

text \<open>
  \<open>compute_lagrange_polynomial\<close> builds a sympy expression in the symbol \<open>x\<close> from
  \<open>Fraction\<close>s, which sympy converts to its exact \<open>Rational\<close>s.  Such an expression is
  modelled by the polynomial it denotes: the list of its coefficients, lowest degree first.
  \<open>simplify\<close> is modelled by \<open>strip\<close>, which leaves the canonical list (no leading zero
  coefficient); the way sympy prints or groups the terms is not represented.
\<close>

fun padd :: "rat list \<Rightarrow> rat list \<Rightarrow> rat list" where
  "padd [] q = q"
| "padd p [] = p"
| "padd (a # p) (b # q) = (a + b) # padd p q"

definition scale :: "rat \<Rightarrow> rat list \<Rightarrow> rat list" where
  "scale k p = map (\<lambda>a. k * a) p"

definition times_linear :: "rat list \<Rightarrow> rat \<Rightarrow> rat list" where
  \<comment> \<open>\<open>p * (x - c)\<close>\<close>
  "times_linear p c = padd (0 # p) (scale (- c) p)"

definition strip :: "rat list \<Rightarrow> rat list" where
  "strip p = rev (dropWhile (\<lambda>a. a = 0) (rev p))"

fun poly_eval :: "rat list \<Rightarrow> rat \<Rightarrow> rat" where
  \<comment> \<open>the value of the polynomial at a rational point, in exact arithmetic\<close>
  "poly_eval [] t = 0"
| "poly_eval (a # p) t = a + t * poly_eval p t"

subsection \<open>\<open>compute_lagrange_polynomial\<close>\<close>

text \<open>
  Inside \<open>for j in range(len(points))\<close> the variables \<open>numerator\<close> and \<open>denominator\<close>
  are both the Python integer \<open>1\<close> until the first index \<open>j \<noteq> i\<close> (\<open>Untouched\<close>);
  from then on \<open>numerator\<close> is a sympy product of factors \<open>x - points[j][0]\<close> and
  \<open>denominator\<close> is a \<open>Fraction\<close> (\<open>Built\<close>).
\<close>

datatype basis = Untouched | Built "rat list" rat

definition basis_step :: "(rat \<times> rat) list \<Rightarrow> nat \<Rightarrow> nat \<Rightarrow> basis \<Rightarrow> basis" where
  "basis_step points i j b =
     (if j \<noteq> i
      then (case b of
              Untouched \<Rightarrow>
                Built (times_linear [1] (fst (points ! j))) (1 * (fst (points ! i) - fst (points ! j)))
            | Built numerator denominator \<Rightarrow>
                Built (times_linear numerator (fst (points ! j)))
                      (denominator * (fst (points ! i) - fst (points ! j))))
      else b)"

definition basis_of :: "(rat \<times> rat) list \<Rightarrow> nat \<Rightarrow> basis" where
  "basis_of points i = fold (basis_step points i) [0..<length points] Untouched"

text \<open>
  The values that \<open>lagrange_poly\<close> takes.
  \<^item> \<open>Py_zero\<close>: the Python integer \<open>0\<close> it is initialised with.
  \<^item> \<open>Float_const f\<close>: a Python float.  With a single point no factor is ever multiplied in,
    so \<open>numerator / denominator\<close> is the true division \<open>1 / 1\<close> of two integers, the float
    \<open>1.0\<close>, and \<open>1.0 * points[i][1]\<close> converts the \<open>Fraction\<close> to a float.
  \<^item> \<open>Polynomial p\<close>: a sympy expression with exact rational coefficients.
  \<^item> \<open>Non_finite\<close>: a sympy expression that contains \<open>zoo\<close> or \<open>nan\<close>.  Dividing a sympy
    expression by a zero \<open>Fraction\<close> raises nothing: the quotient is \<open>zoo\<close> times the
    numerator, and every sum or product with it stays non-finite.
  \<^item> \<open>Mixed\<close>: a sum of a float and another term.  It is listed for totality only: all
    terms of one call are floats (one point) or all are sympy expressions (two or more).
\<close>

datatype expr = Py_zero | Float_const pyfloat | Polynomial "rat list" | Non_finite | Mixed

definition basis_term :: "(rat \<times> rat) list \<Rightarrow> nat \<Rightarrow> pyexc + expr" where
  \<comment> \<open>\<open>(numerator / denominator) * points[i][1]\<close>\<close>
  "basis_term points i =
     (case basis_of points i of
        Untouched \<Rightarrow>
          (case int_true_divide 1 1 of
             Inl e \<Rightarrow> Inl e
           | Inr ratio \<Rightarrow>
               (case float_of_Fraction (snd (points ! i)) of
                  Inl e \<Rightarrow> Inl e
                | Inr y \<Rightarrow> Inr (Float_const (fmul ratio y))))
      | Built numerator denominator \<Rightarrow>
          Inr (if denominator = 0 then Non_finite
               else Polynomial (scale (snd (points ! i)) (scale (1 / denominator) numerator))))"

fun expr_add :: "expr \<Rightarrow> expr \<Rightarrow> expr" where
  "expr_add Py_zero (Float_const f) = Float_const (fadd (Finite False 0 (- 1074)) f)"
| "expr_add Py_zero t = t"
| "expr_add (Polynomial p) (Polynomial q) = Polynomial (padd p q)"
| "expr_add (Polynomial p) Py_zero = Polynomial p"
| "expr_add (Float_const f) (Float_const g) = Float_const (fadd f g)"
| "expr_add (Float_const f) Py_zero = Float_const f"
| "expr_add Non_finite t = Non_finite"
| "expr_add s Non_finite = Non_finite"
| "expr_add s t = Mixed"

fun lagrange_poly_loop :: "(rat \<times> rat) list \<Rightarrow> nat list \<Rightarrow> expr \<Rightarrow> pyexc + expr" where
  "lagrange_poly_loop points [] lagrange_poly = Inr lagrange_poly"
| "lagrange_poly_loop points (i # is) lagrange_poly =
     (case basis_term points i of
        Inl e \<Rightarrow> Inl e
      | Inr t \<Rightarrow> lagrange_poly_loop points is (expr_add lagrange_poly t))"

fun simplify :: "expr \<Rightarrow> expr" where
  "simplify Py_zero = Polynomial []"
| "simplify (Polynomial p) = Polynomial (strip p)"
| "simplify e = e"

definition compute_lagrange_polynomial :: "(rat \<times> rat) list \<Rightarrow> pyexc + expr" where
  "compute_lagrange_polynomial points =
     (case lagrange_poly_loop points [0..<length points] Py_zero of
        Inl e \<Rightarrow> Inl e
      | Inr lagrange_poly \<Rightarrow> Inr (simplify lagrange_poly))"

subsection \<open>\<open>get_points\<close> and \<open>interpolate_lagrange\<close>\<close>

text \<open>
  The content of an entry field is represented by what reading it gives: for a point field,
  the result of \<open>Fraction(text)\<close>, a rational or the exception raised (\<open>ValueError\<close> for text
  that is no number, \<open>ZeroDivisionError\<close> for a zero denominator); for the field of the
  abscissa, the exact value of the decimal numeral that \<open>float(text)\<close> reads, or the
  exception.  \<open>get_points\<close> returns \<open>None\<close> after showing its error box.
\<close>

fun get_points_loop ::
  "((pyexc + rat) \<times> (pyexc + rat)) list \<Rightarrow> (rat \<times> rat) list \<Rightarrow> pyexc + (rat \<times> rat) list option"
where
  "get_points_loop [] points = Inr (Some points)"
| "get_points_loop ((entry_x, entry_y) # frames) points =
     (case entry_x of
        Inl e \<Rightarrow> (if e = ValueError then Inr None else Inl e)
      | Inr x \<Rightarrow>
          (case entry_y of
             Inl e \<Rightarrow> (if e = ValueError then Inr None else Inl e)
           | Inr y \<Rightarrow> get_points_loop frames (points @ [(x, y)])))"

definition get_points ::
  "((pyexc + rat) \<times> (pyexc + rat)) list \<Rightarrow> pyexc + (rat \<times> rat) list option" where
  "get_points point_frames = get_points_loop point_frames []"

text \<open>
  \<open>lagrange_poly.subs({'x': x_val})\<close> replaces the symbol by a float.  An expression without
  \<open>x\<close> is returned as it is (\<open>Exact\<close>).  Otherwise sympy evaluates the expression in
  floating point; the roundings of that evaluation depend on the form in which sympy holds
  the expression and are not modelled: \<open>Float_near r\<close> is a sympy \<open>Float\<close> that
  approximates \<open>r\<close>, the value of the polynomial at the float \<open>x_val\<close> in exact arithmetic.
\<close>

datatype evaluated = Exact rat | Float_near rat | No_finite_value

fun subs :: "expr \<Rightarrow> pyfloat \<Rightarrow> evaluated" where
  "subs Py_zero x_val = Exact 0"
| "subs (Float_const (Finite s m e)) x_val = Float_near (valof (Finite s m e))"
| "subs (Float_const f) x_val = No_finite_value"
| "subs (Polynomial []) x_val = Exact 0"
| "subs (Polynomial [c]) x_val = Exact c"
| "subs (Polynomial p) (Finite s m e) = Float_near (poly_eval p (valof (Finite s m e)))"
| "subs (Polynomial p) x_val = No_finite_value"
| "subs Non_finite x_val = No_finite_value"
| "subs Mixed x_val = No_finite_value"

definition interpolate_lagrange ::
  "pyexc + rat \<Rightarrow> ((pyexc + rat) \<times> (pyexc + rat)) list \<Rightarrow>
     pyexc + (expr \<times> evaluated \<times> pyfloat) option" where
  \<comment> \<open>the polynomial shown in the popup, and \<open>result\<close> and \<open>x_val\<close> shown by \<open>display_result\<close>;
     \<open>None\<close> when the method returns without showing them\<close>
  "interpolate_lagrange x_entry point_frames =
     (case x_entry of
        Inl e \<Rightarrow> Inl e
      | Inr q \<Rightarrow>
          let x_val = float_of_literal q in
          (case get_points point_frames of
             Inl e \<Rightarrow> Inl e
           | Inr None \<Rightarrow> Inr None
           | Inr (Some points) \<Rightarrow>
               if points = [] then Inr None
               else (case compute_lagrange_polynomial points of
                       Inl e \<Rightarrow> Inl e
                     | Inr lagrange_poly \<Rightarrow>
                         Inr (Some (lagrange_poly, subs lagrange_poly x_val, x_val)))))"

section \<open>Notions used to state the properties\<close>

definition date_less :: "date \<Rightarrow> date \<Rightarrow> bool" where
  \<comment> \<open>calendar order: by year, then month, then day\<close>
  "date_less a b =
     (case a of (y1, m1, d1) \<Rightarrow> case b of (y2, m2, d2) \<Rightarrow>
        y1 < y2 \<or> (y1 = y2 \<and> (m1 < m2 \<or> (m1 = m2 \<and> d1 < d2))))"

definition app_date_values :: "int list" where
  \<comment> \<open>the day numbers of \<open>app_dates\<close> (lemma \<open>forex_data_eq\<close>)\<close>
  "app_date_values =
     [0, 31, 59, 90, 120, 151, 181, 212, 243, 273, 304, 334,
      365, 396, 424, 455, 485, 516, 546, 577, 608, 638, 669, 699]"

definition app_denominators :: "pyfloat list" where
  \<comment> \<open>the floats of the 24 denominators of the series (lemma \<open>app_denominators_eq\<close>)\<close>
  "app_denominators =
     [Finite True 7058641931513596 135, Finite False 8692140475715568 130,
      Finite True 7598820766748736 127, Finite False 8821355212688960 124,
      Finite True 7378672976175942 122, Finite False 7691250069614579 120,
      Finite True 5282063680924094 119, Finite False 8769031784659738 117,
      Finite True 8480235304680296 116, Finite False 5075831332425861 116,
      Finite True 7144303211996683 115, Finite False 6006261984340462 115,
      Finite True 5964720030330009 115, Finite False 6493318574743122 115,
      Finite True 8783688280185549 115, Finite False 7844860912886062 116,
      Finite True 7970892310858795 117, Finite False 5007364243403962 119,
      Finite True 7506830744245021 120, Finite False 7492983336408141 122,
      Finite True 4731982524631306 125, Finite False 7983221088124472 127,
      Finite True 5696884447785005 131, Finite False 7742905472823231 135]"

definition app_rate_floats :: "pyfloat list" where
  \<comment> \<open>the floats that the 24 rate literals denote (lemma \<open>app_exchange_rates_eq\<close>)\<close>
  "app_rate_floats =
     [Finite False 7483012255852790 (- 48), Finite False 7394432080681946 (- 48),
      Finite False 7532748884237563 (- 48), Finite False 7680832869485039 (- 48),
      Finite False 7708558154691038 (- 48), Finite False 8062766265383728 (- 48),
      Finite False 7897512306556902 (- 48), Finite False 7888082894837095 (- 48),
      Finite False 8024682701034776 (- 48), Finite False 8184447897815745 (- 48),
      Finite False 8422181663145565 (- 48), Finite False 8472481241483759 (- 48),
      Finite False 8774391301503608 (- 48), Finite False 4518897792354720 (- 47),
      Finite False 4621593937607603 (- 47), Finite False 4524597660633111 (- 47),
      Finite False 4787227887652989 (- 47), Finite False 4990326157098562 (- 47),
      Finite False 5010198290454335 (- 47), Finite False 5042652355269073 (- 47),
      Finite False 5117299519092739 (- 47), Finite False 5362942731268129 (- 47),
      Finite False 5574865241233582 (- 47), Finite False 5749337505547682 (- 47)]"

definition app_sample_results :: "pyfloat list" where
  \<comment> \<open>what the interpolation returns at the 24 sample days (lemma \<open>app_sample_terms\<close>);
     the tenth and the twelfth differ from the rate in the last binary digit\<close>
  "app_sample_results =
     [Finite False 7483012255852790 (- 48), Finite False 7394432080681946 (- 48),
      Finite False 7532748884237563 (- 48), Finite False 7680832869485039 (- 48),
      Finite False 7708558154691038 (- 48), Finite False 8062766265383728 (- 48),
      Finite False 7897512306556902 (- 48), Finite False 7888082894837095 (- 48),
      Finite False 8024682701034776 (- 48), Finite False 8184447897815746 (- 48),
      Finite False 8422181663145565 (- 48), Finite False 8472481241483758 (- 48),
      Finite False 8774391301503608 (- 48), Finite False 4518897792354720 (- 47),
      Finite False 4621593937607603 (- 47), Finite False 4524597660633111 (- 47),
      Finite False 4787227887652989 (- 47), Finite False 4990326157098562 (- 47),
      Finite False 5010198290454335 (- 47), Finite False 5042652355269073 (- 47),
      Finite False 5117299519092739 (- 47), Finite False 5362942731268129 (- 47),
      Finite False 5574865241233582 (- 47), Finite False 5749337505547682 (- 47)]"

definition nonzero_finite :: "pyfloat \<Rightarrow> bool" where
  "nonzero_finite f = (case f of Finite s m e \<Rightarrow> m \<noteq> 0 | _ \<Rightarrow> False)"

definition iso_text :: "date \<Rightarrow> str" where
  \<comment> \<open>the text \<open>YYYY-MM-DD\<close> of a date, in ASCII digits\<close>
  "iso_text d =
     (case d of (year, month, day) \<Rightarrow>
        [digit_char (year div 1000), digit_char (year div 100 mod 10),
         digit_char (year div 10 mod 10), digit_char (year mod 10), of_char CHR ''-'',
         digit_char (month div 10), digit_char (month mod 10), of_char CHR ''-'',
         digit_char (day div 10), digit_char (day mod 10)])"

definition tomorrow :: "date \<Rightarrow> date" where
  \<comment> \<open>the next day of the calendar\<close>
  "tomorrow d =
     (case d of (year, month, day) \<Rightarrow>
        if day < days_in_month year month then (year, month, day + 1)
        else if month < 12 then (year, month + 1, 1)
        else (year + 1, 1, 1))"

definition basis_numerator :: "(rat \<times> rat) list \<Rightarrow> nat \<Rightarrow> rat list" where
  \<comment> \<open>the product of the factors \<open>x - x\<^sub>j\<close> over the indices \<open>j \<noteq> i\<close>\<close>
  "basis_numerator points i =
     foldl times_linear [1] (map (\<lambda>j. fst (points ! j)) (filter (\<lambda>j. j \<noteq> i) [0..<length points]))"

definition basis_denominator :: "(rat \<times> rat) list \<Rightarrow> nat \<Rightarrow> rat" where
  \<comment> \<open>the product of the differences \<open>x\<^sub>i - x\<^sub>j\<close> over the indices \<open>j \<noteq> i\<close>\<close>
  "basis_denominator points i =
     prod_list (map (\<lambda>j. fst (points ! i) - fst (points ! j)) (filter (\<lambda>j. j \<noteq> i) [0..<length points]))"

definition basis_polynomial :: "(rat \<times> rat) list \<Rightarrow> nat \<Rightarrow> rat list" where
  "basis_polynomial points i =
     scale (snd (points ! i)) (scale (1 / basis_denominator points i) (basis_numerator points i))"

definition symbolic :: "expr \<Rightarrow> bool" where
  \<comment> \<open>the values of \<open>lagrange_poly\<close> in a call with two or more points\<close>
  "symbolic e = (case e of Py_zero \<Rightarrow> True | Polynomial p \<Rightarrow> True | Non_finite \<Rightarrow> True | _ \<Rightarrow> False)"

fun linear_quotient :: "rat list \<Rightarrow> rat \<Rightarrow> rat list" where
  \<comment> \<open>the quotient of a polynomial by \<open>x - a\<close> (synthetic division)\<close>
  "linear_quotient [] a = []"
| "linear_quotient (c # cs) a = (if cs = [] then [] else poly_eval cs a # linear_quotient cs a)"

definition entries :: "(rat \<times> rat) list \<Rightarrow> ((pyexc + rat) \<times> (pyexc + rat)) list" where
  \<comment> \<open>point frames whose fields hold the texts of the given rationals\<close>
  "entries points = map (\<lambda>(x, y). (Inr x, Inr y)) points"

definition lagrange_sum :: "(rat \<times> rat) list \<Rightarrow> rat list" where
  \<comment> \<open>the sum that \<open>lagrange_poly\<close> holds after the outer loop, for two or more points\<close>
  "lagrange_sum points =
     foldl padd (basis_polynomial points 0) (map (basis_polynomial points) [1..<length points])"

section \<open>The symbolic builder on small point sets\<close>

lemmas builder_eval = compute_lagrange_polynomial_def basis_term_def basis_of_def basis_step_def
  times_linear_def scale_def strip_def

lemma float_of_literal_3: "float_of_literal 3 = Finite False 6755399441055744 (- 51)"
  by code_simp

subsection \<open>Values of polynomials\<close>

lemma poly_eval_padd: "poly_eval (padd p q) t = poly_eval p t + poly_eval q t"
  by (induction p q rule: padd.induct) (simp_all add: algebra_simps)

lemma poly_eval_scale: "poly_eval (scale k p) t = k * poly_eval p t"
  by (induction p) (simp_all add: scale_def algebra_simps)

lemma poly_eval_times_linear: "poly_eval (times_linear p c) t = (t - c) * poly_eval p t"
  by (simp add: times_linear_def poly_eval_padd poly_eval_scale algebra_simps)

lemma poly_eval_zeros: "\<forall>a\<in>set z. a = 0 \<Longrightarrow> poly_eval z t = 0"
  by (induction z) simp_all

lemma poly_eval_append_zeros: "\<forall>a\<in>set z. a = 0 \<Longrightarrow> poly_eval (p @ z) t = poly_eval p t"
  by (induction p) (simp_all add: poly_eval_zeros)

lemma strip_decomposition: "\<exists>z. p = strip p @ z \<and> (\<forall>a\<in>set z. a = 0)"
proof -
  have "rev p = takeWhile (\<lambda>a. a = 0) (rev p) @ dropWhile (\<lambda>a. a = 0) (rev p)"
    by simp
  then have "p = rev (dropWhile (\<lambda>a. a = 0) (rev p)) @ rev (takeWhile (\<lambda>a. a = 0) (rev p))"
    by (metis rev_append rev_rev_ident)
  moreover have "\<forall>a\<in>set (rev (takeWhile (\<lambda>a. a = 0) (rev p))). a = 0"
    by (auto dest: set_takeWhileD)
  ultimately show ?thesis
    unfolding strip_def by blast
qed

lemma poly_eval_strip: "poly_eval (strip p) t = poly_eval p t"
proof -
  obtain z where "p = strip p @ z" "\<forall>a\<in>set z. a = 0"
    using strip_decomposition by blast
  then show ?thesis
    using poly_eval_append_zeros [of z "strip p" t] by simp
qed

lemma length_padd: "length (padd p q) = max (length p) (length q)"
  by (induction p q rule: padd.induct) simp_all

lemma length_scale: "length (scale k p) = length p"
  by (simp add: scale_def)

lemma length_times_linear: "length (times_linear p c) = Suc (length p)"
  by (simp add: times_linear_def length_padd length_scale)

lemma poly_eval_foldl_times_linear:
  "poly_eval (foldl times_linear p cs) t = poly_eval p t * prod_list (map (\<lambda>c. t - c) cs)"
  by (induction cs arbitrary: p) (simp_all add: poly_eval_times_linear algebra_simps)

lemma length_foldl_times_linear: "length (foldl times_linear p cs) = length p + length cs"
  by (induction cs arbitrary: p) (simp_all add: length_times_linear)

subsection \<open>The inner loop\<close>

lemma basis_step_simps:
  "basis_step points i j Untouched =
     (if j \<noteq> i then Built (times_linear [1] (fst (points ! j))) (fst (points ! i) - fst (points ! j))
      else Untouched)"
  "basis_step points i j (Built N D) =
     (if j \<noteq> i then Built (times_linear N (fst (points ! j))) (D * (fst (points ! i) - fst (points ! j)))
      else Built N D)"
  by (simp_all add: basis_step_def)

lemma fold_basis_step_Built:
  "fold (basis_step points i) js (Built N D) =
     Built (foldl times_linear N (map (\<lambda>j. fst (points ! j)) (filter (\<lambda>j. j \<noteq> i) js)))
           (D * prod_list (map (\<lambda>j. fst (points ! i) - fst (points ! j)) (filter (\<lambda>j. j \<noteq> i) js)))"
  by (induction js arbitrary: N D) (simp_all add: basis_step_simps mult.assoc)

lemma fold_basis_step_Untouched:
  "fold (basis_step points i) js Untouched =
     (if filter (\<lambda>j. j \<noteq> i) js = [] then Untouched
      else Built (foldl times_linear [1] (map (\<lambda>j. fst (points ! j)) (filter (\<lambda>j. j \<noteq> i) js)))
                 (prod_list (map (\<lambda>j. fst (points ! i) - fst (points ! j)) (filter (\<lambda>j. j \<noteq> i) js))))"
  by (induction js) (simp_all add: basis_step_simps fold_basis_step_Built)

lemma others_nonempty:
  assumes "2 \<le> n" and "i < n"
  shows "filter (\<lambda>j. j \<noteq> i) [0..<n] \<noteq> []"
proof -
  obtain j where "j < n" "j \<noteq> i"
    using assms by (metis One_nat_def Suc_1 less_eq_Suc_le less_one not_less_eq_eq zero_less_Suc order_less_le_trans)
  then have "j \<in> set (filter (\<lambda>j. j \<noteq> i) [0..<n])"
    by simp
  then show ?thesis
    by (metis empty_iff empty_set)
qed

lemma basis_of_Built:
  assumes "2 \<le> length points" and "i < length points"
  shows "basis_of points i =
     Built (foldl times_linear [1] (map (\<lambda>j. fst (points ! j)) (filter (\<lambda>j. j \<noteq> i) [0..<length points])))
           (prod_list (map (\<lambda>j. fst (points ! i) - fst (points ! j)) (filter (\<lambda>j. j \<noteq> i) [0..<length points])))"
  using others_nonempty [OF assms] by (simp add: basis_of_def fold_basis_step_Untouched)

subsection \<open>The outer loop\<close>

lemma basis_term_Built:
  assumes "2 \<le> length points" and "i < length points"
  shows "basis_term points i =
     Inr (if basis_denominator points i = 0 then Non_finite else Polynomial (basis_polynomial points i))"
  by (simp add: basis_term_def basis_of_Built [OF assms] basis_denominator_def basis_numerator_def
      basis_polynomial_def)

lemma loop_Non_finite:
  assumes "2 \<le> length points" and "\<forall>i\<in>set is. i < length points"
  shows "lagrange_poly_loop points is Non_finite = Inr Non_finite"
  using assms(2) by (induction "is") (simp_all add: basis_term_Built [OF assms(1)])

lemma loop_zero_denominator:
  assumes "2 \<le> length points" and "\<forall>i\<in>set is. i < length points"
    and "\<exists>i\<in>set is. basis_denominator points i = 0" and "symbolic acc"
  shows "lagrange_poly_loop points is acc = Inr Non_finite"
  using assms(2-4)
proof (induction "is" arbitrary: acc)
  case Nil
  then show ?case by simp
next
  case (Cons i "is")
  have i: "i < length points" and rest: "\<forall>i\<in>set is. i < length points"
    using Cons.prems(1) by simp_all
  show ?case
  proof (cases "basis_denominator points i = 0")
    case True
    then have "expr_add acc Non_finite = Non_finite"
      using Cons.prems(3) by (cases acc) (simp_all add: symbolic_def)
    with True show ?thesis
      by (simp add: basis_term_Built [OF assms(1) i] loop_Non_finite [OF assms(1) rest])
  next
    case False
    with Cons.prems(2) have ex: "\<exists>i\<in>set is. basis_denominator points i = 0"
      by auto
    have "symbolic (expr_add acc (Polynomial (basis_polynomial points i)))"
      using Cons.prems(3) by (cases acc) (simp_all add: symbolic_def)
    from Cons.IH [OF rest ex this] False show ?thesis
      by (simp add: basis_term_Built [OF assms(1) i])
  qed
qed

lemma loop_Polynomial:
  assumes "2 \<le> length points" and "\<forall>i\<in>set is. i < length points \<and> basis_denominator points i \<noteq> 0"
  shows "lagrange_poly_loop points is (Polynomial p) =
     Inr (Polynomial (foldl padd p (map (basis_polynomial points) is)))"
  using assms(2)
  by (induction "is" arbitrary: p) (simp_all add: basis_term_Built [OF assms(1)])

lemma loop_Py_zero:
  assumes "2 \<le> length points" and "\<forall>i<length points. basis_denominator points i \<noteq> 0"
  shows "lagrange_poly_loop points [0..<length points] Py_zero =
     Inr (Polynomial (foldl padd (basis_polynomial points 0) (map (basis_polynomial points) [1..<length points])))"
proof -
  have pos: "0 < length points"
    using assms(1) by linarith
  then have "[0..<length points] = 0 # [1..<length points]"
    by (simp add: upt_rec)
  moreover have "basis_term points 0 = Inr (Polynomial (basis_polynomial points 0))"
    using assms(2) pos by (simp add: basis_term_Built [OF assms(1) pos])
  moreover have "\<forall>i\<in>set [1..<length points]. i < length points \<and> basis_denominator points i \<noteq> 0"
    using assms(2) by simp
  ultimately show ?thesis
    by (simp add: loop_Polynomial [OF assms(1)])
qed

lemma get_points_loop_entries:
  "get_points_loop (entries points) acc = Inr (Some (acc @ points))"
  by (induction points arbitrary: acc) (simp_all add: entries_def split: prod.splits)

lemma get_points_entries: "get_points (entries points) = Inr (Some points)"
  by (simp add: get_points_def get_points_loop_entries)

lemma duplicate_denominator:
  assumes "i < length points" "j < length points" "i \<noteq> j" "fst (points ! i) = fst (points ! j)"
  shows "basis_denominator points i = 0"
proof -
  have "j \<in> set (filter (\<lambda>j. j \<noteq> i) [0..<length points])"
    using assms by auto
  then have "(0::rat) \<in> set (map (\<lambda>j. fst (points ! i) - fst (points ! j)) (filter (\<lambda>j. j \<noteq> i) [0..<length points]))"
    using assms(4) by force
  then show ?thesis
    by (simp only: basis_denominator_def prod_list_zero_iff)
qed

subsection \<open>The value of the built polynomial at the abscissas\<close>

lemma poly_eval_foldl_padd:
  "poly_eval (foldl padd p qs) t = poly_eval p t + sum_list (map (\<lambda>q. poly_eval q t) qs)"
  by (induction qs arbitrary: p) (simp_all add: poly_eval_padd)

lemma poly_eval_basis_polynomial:
  "poly_eval (basis_polynomial points i) t =
     snd (points ! i) * (1 / basis_denominator points i) *
     prod_list (map (\<lambda>j. t - fst (points ! j)) (filter (\<lambda>j. j \<noteq> i) [0..<length points]))"
  by (simp add: basis_polynomial_def basis_numerator_def poly_eval_scale poly_eval_foldl_times_linear
      comp_def)

lemma distinct_denominator:
  assumes "distinct (map fst points)" and "i < length points"
  shows "basis_denominator points i \<noteq> 0"
proof
  assume "basis_denominator points i = 0"
  then have "(0::rat) \<in> set (map (\<lambda>j. fst (points ! i) - fst (points ! j)) (filter (\<lambda>j. j \<noteq> i) [0..<length points]))"
    by (simp only: basis_denominator_def prod_list_zero_iff)
  then obtain j where j: "j < length points" "j \<noteq> i" "fst (points ! i) = fst (points ! j)"
    by auto
  then have "map fst points ! i = map fst points ! j"
    using assms(2) by simp
  moreover have "map fst points ! i \<noteq> map fst points ! j"
    using assms j(1,2) by (simp add: distinct_conv_nth)
  ultimately show False
    by contradiction
qed

lemma basis_polynomial_at_node:
  assumes "distinct (map fst points)" and "i < length points" and "k < length points"
  shows "poly_eval (basis_polynomial points i) (fst (points ! k)) = (if i = k then snd (points ! k) else 0)"
proof (cases "i = k")
  case True
  have "prod_list (map (\<lambda>j. fst (points ! k) - fst (points ! j)) (filter (\<lambda>j. j \<noteq> k) [0..<length points]))
      = basis_denominator points k"
    by (simp add: basis_denominator_def)
  with True distinct_denominator [OF assms(1,3)] show ?thesis
    by (simp add: poly_eval_basis_polynomial)
next
  case False
  then have "k \<in> set (filter (\<lambda>j. j \<noteq> i) [0..<length points])"
    using assms(3) by simp
  then have "(0::rat) \<in> set (map (\<lambda>j. fst (points ! k) - fst (points ! j)) (filter (\<lambda>j. j \<noteq> i) [0..<length points]))"
    by force
  then have "prod_list (map (\<lambda>j. fst (points ! k) - fst (points ! j)) (filter (\<lambda>j. j \<noteq> i) [0..<length points])) = 0"
    by (simp only: prod_list_zero_iff)
  with False show ?thesis
    by (simp add: poly_eval_basis_polynomial)
qed

lemma sum_list_single:
  fixes f :: "nat \<Rightarrow> rat"
  assumes "k < n" and "\<forall>i<n. i \<noteq> k \<longrightarrow> f i = 0"
  shows "sum_list (map f [0..<n]) = f k"
proof -
  have "sum_list (map f [0..<n]) = sum f {0..<n}"
    by (simp add: interv_sum_list_conv_sum_set_nat)
  also have "\<dots> = sum (\<lambda>i. if i = k then f k else 0) {0..<n}"
    using assms(2) by (intro sum.cong) auto
  also have "\<dots> = f k"
    using assms(1) by simp
  finally show ?thesis .
qed

lemma poly_eval_lagrange_sum:
  assumes "0 < length points"
  shows "poly_eval (lagrange_sum points) t =
     sum_list (map (\<lambda>i. poly_eval (basis_polynomial points i) t) [0..<length points])"
proof -
  have "[0..<length points] = 0 # [1..<length points]"
    using assms by (simp add: upt_rec)
  then show ?thesis
    by (simp add: lagrange_sum_def poly_eval_foldl_padd comp_def)
qed

lemma compute_distinct:
  assumes "2 \<le> length points" and "distinct (map fst points)"
  shows "compute_lagrange_polynomial points = Inr (Polynomial (strip (lagrange_sum points)))"
  using loop_Py_zero [OF assms(1)] distinct_denominator [OF assms(2)]
  by (simp add: compute_lagrange_polynomial_def lagrange_sum_def)

lemma lagrange_sum_at_node:
  assumes "2 \<le> length points" and "distinct (map fst points)" and "k < length points"
  shows "poly_eval (lagrange_sum points) (fst (points ! k)) = snd (points ! k)"
proof -
  have pos: "0 < length points"
    using assms(1) by linarith
  have "sum_list (map (\<lambda>i. poly_eval (basis_polynomial points i) (fst (points ! k))) [0..<length points])
      = poly_eval (basis_polynomial points k) (fst (points ! k))"
    using assms(3) basis_polynomial_at_node [OF assms(2) _ assms(3)]
    by (intro sum_list_single) auto
  then show ?thesis
    using basis_polynomial_at_node [OF assms(2) assms(3) assms(3)]
    by (simp add: poly_eval_lagrange_sum [OF pos])
qed

lemma length_strip_le: "length (strip p) \<le> length p"
  by (simp add: strip_def) (metis length_dropWhile_le length_rev)

lemma length_others:
  "length (filter (\<lambda>j. j \<noteq> i) [0..<n]) = (if i < n then n - 1 else n)"
  by (induction n) auto

lemma length_basis_polynomial: "i < length points \<Longrightarrow> length (basis_polynomial points i) = length points"
  by (simp add: basis_polynomial_def basis_numerator_def length_scale length_foldl_times_linear
      length_others)

lemma length_foldl_padd:
  "length p = n \<Longrightarrow> \<forall>q\<in>set qs. length q = n \<Longrightarrow> length (foldl padd p qs) = n"
  by (induction qs arbitrary: p) (simp_all add: length_padd)

lemma length_lagrange_sum: "0 < length points \<Longrightarrow> length (lagrange_sum points) = length points"
  unfolding lagrange_sum_def
  by (rule length_foldl_padd) (simp_all add: length_basis_polynomial)

lemma float_of_literal_tenth: "float_of_literal (1 / 10) = Finite False 7205759403792794 (- 56)"
  by code_simp


section \<open>The interpolant passes through its points\<close>

text \<open>
  Claim C1 says that evaluating the built polynomial at an input abscissa returns exactly
  the ordinate of that point.  The evaluation of the program is \<open>interpolate_lagrange\<close>: it
  reads the abscissa with \<open>float\<close> and substitutes that float.  For the two points
  \<open>(0.1, 0.1)\<close> and \<open>(1, 1)\<close> the polynomial is \<open>x\<close>; with \<open>0.1\<close> entered as abscissa
  the substituted value is the float nearest to one tenth, and that float is the result:
  it is not the ordinate \<open>1/10\<close>.
\<close>

theorem evaluation_at_abscissa_counterexample:
  "interpolate_lagrange (Inr (1 / 10)) (entries [(1 / 10, 1 / 10), (1, 1)]) =
     Inr (Some (Polynomial [0, 1], Float_near (3602879701896397 / 36028797018963968),
          Finite False 7205759403792794 (- 56))) \<and>
   (3602879701896397 / 36028797018963968 :: rat) \<noteq> 1 / 10"
  by (simp add: interpolate_lagrange_def get_points_def entries_def float_of_literal_tenth
      builder_eval valof_def)

text \<open>
  Claim C1 as amended: for every point set of two or more points with pairwise distinct
  abscissas, the builder returns a polynomial with exact rational coefficients, of at most
  as many coefficients as there are points, whose value at every input abscissa, in exact
  arithmetic, is the ordinate of that point; \<open>interpolate_lagrange\<close> shows this polynomial
  for every number entered as abscissa.  (A single point is the subject of claim C5.)
\<close>

theorem interpolation_through_points:
  assumes "2 \<le> length points" and "distinct (map fst points)"
  shows "\<exists>p. compute_lagrange_polynomial points = Inr (Polynomial p) \<and>
           length p \<le> length points \<and>
           (\<forall>i<length points. poly_eval p (fst (points ! i)) = snd (points ! i)) \<and>
           (\<forall>q. interpolate_lagrange (Inr q) (entries points) =
                 Inr (Some (Polynomial p, subs (Polynomial p) (float_of_literal q), float_of_literal q)))"
proof -
  have pos: "0 < length points"
    using assms(1) by linarith
  then have ne: "points \<noteq> []"
    by auto
  let ?p = "strip (lagrange_sum points)"
  have c: "compute_lagrange_polynomial points = Inr (Polynomial ?p)"
    by (rule compute_distinct [OF assms])
  have "length ?p \<le> length points"
    using length_strip_le [of "lagrange_sum points"] length_lagrange_sum [OF pos] by simp
  moreover have "\<forall>i<length points. poly_eval ?p (fst (points ! i)) = snd (points ! i)"
    by (simp add: poly_eval_strip lagrange_sum_at_node [OF assms])
  moreover have "\<forall>q. interpolate_lagrange (Inr q) (entries points) =
      Inr (Some (Polynomial ?p, subs (Polynomial ?p) (float_of_literal q), float_of_literal q))"
    using ne by (simp add: interpolate_lagrange_def get_points_entries c Let_def)
  ultimately show ?thesis
    using c by blast
qed

theorem interpolation_through_points_witness:
  "\<exists>p. compute_lagrange_polynomial [(0, 1), (1 / 2, 3), (2, 1 / 3)] = Inr (Polynomial p) \<and>
       poly_eval p 0 = 1 \<and> poly_eval p (1 / 2) = 3 \<and> poly_eval p 2 = 1 / 3"
proof -
  have "\<forall>i<3. i = 0 \<or> i = 1 \<or> i = (2::nat)"
    by auto
  with interpolation_through_points [of "[(0, 1), (1 / 2, 3), (2, 1 / 3)]"] show ?thesis
    by (auto simp: numeral_3_eq_3 less_Suc_eq)
qed

subsection \<open>A polynomial is determined by its values\<close>

lemma poly_eval_linear_quotient:
  "poly_eval p t = (t - a) * poly_eval (linear_quotient p a) t + poly_eval p a"
proof (induction p)
  case Nil
  show ?case by simp
next
  case (Cons c cs)
  show ?case
  proof (cases "cs = []")
    case True
    then show ?thesis by simp
  next
    case False
    have "c + t * poly_eval cs t = c + t * ((t - a) * poly_eval (linear_quotient cs a) t + poly_eval cs a)"
      using Cons.IH by simp
    also have "\<dots> = (t - a) * (poly_eval cs a + t * poly_eval (linear_quotient cs a) t) + (c + a * poly_eval cs a)"
      by (simp add: algebra_simps)
    finally show ?thesis
      using False by simp
  qed
qed

lemma length_linear_quotient: "length (linear_quotient p a) = length p - 1"
  by (induction p) auto

lemma linear_quotient_zero:
  "\<forall>c\<in>set (linear_quotient p a). c = 0 \<Longrightarrow> poly_eval p a = 0 \<Longrightarrow> \<forall>c\<in>set p. c = 0"
proof (induction p)
  case Nil
  show ?case by simp
next
  case (Cons c cs)
  show ?case
  proof (cases "cs = []")
    case True
    with Cons.prems(2) show ?thesis by simp
  next
    case False
    with Cons.prems(1) have z: "poly_eval cs a = 0" and q: "\<forall>c\<in>set (linear_quotient cs a). c = 0"
      by simp_all
    from Cons.IH [OF q z] have "\<forall>c\<in>set cs. c = 0" .
    moreover from Cons.prems(2) z have "c = 0" by simp
    ultimately show ?thesis by simp
  qed
qed

lemma roots_zero:
  assumes "length p \<le> length xs" and "distinct xs" and "\<forall>x\<in>set xs. poly_eval p x = 0"
  shows "\<forall>c\<in>set p. c = 0"
  using assms
proof (induction xs arbitrary: p)
  case Nil
  then show ?case by simp
next
  case (Cons a xs)
  let ?q = "linear_quotient p a"
  have pa: "poly_eval p a = 0"
    using Cons.prems(3) by simp
  have "poly_eval ?q x = 0" if "x \<in> set xs" for x
  proof -
    from that Cons.prems(2) have "x \<noteq> a" by auto
    moreover have "poly_eval p x = 0"
      using that Cons.prems(3) by simp
    ultimately show ?thesis
      using poly_eval_linear_quotient [of p x a] pa by simp
  qed
  moreover have "length ?q \<le> length xs"
    using Cons.prems(1) by (simp add: length_linear_quotient)
  moreover have "distinct xs"
    using Cons.prems(2) by simp
  ultimately have "\<forall>c\<in>set ?q. c = 0"
    by (intro Cons.IH) auto
  then show ?case
    using pa by (rule linear_quotient_zero)
qed

lemma poly_eval_difference:
  "length p = length q \<Longrightarrow> poly_eval (map2 (-) p q) t = poly_eval p t - poly_eval q t"
proof (induction p q rule: list_induct2)
  case Nil
  show ?case by simp
next
  case (Cons a p b q)
  have "a - b + t * (poly_eval p t - poly_eval q t) = a + t * poly_eval p t - (b + t * poly_eval q t)"
    by (simp add: algebra_simps)
  with Cons.IH show ?case
    by simp
qed

lemma polynomial_unique:
  assumes "length p = length q" and "length p \<le> length xs" and "distinct xs"
    and "\<forall>x\<in>set xs. poly_eval p x = poly_eval q x"
  shows "p = q"
proof -
  have "\<forall>c\<in>set (map2 (-) p q). c = 0"
    using assms by (intro roots_zero [of _ xs]) (simp_all add: poly_eval_difference)
  then have "\<forall>i<length p. p ! i - q ! i = 0"
    using assms(1) by (auto simp: set_conv_nth)
  then show ?thesis
    using assms(1) by (simp add: list_eq_iff_nth_eq)
qed

lemma short_list_permutation:
  assumes "length xs \<le> 1" and "mset ys = mset xs"
  shows "ys = xs"
proof -
  have len: "length ys = length xs"
    using assms(2) by (rule mset_eq_length)
  have sets: "set ys = set xs"
    using assms(2) by (rule mset_eq_setD)
  show ?thesis
  proof (cases xs)
    case Nil
    with len show ?thesis by simp
  next
    case (Cons a xs')
    with assms(1) have xs: "xs = [a]" by simp
    with len obtain b where ys: "ys = [b]"
      by (cases ys) auto
    with sets xs show ?thesis by simp
  qed
qed

section \<open>Point sets with a repeated abscissa\<close>

text \<open>
  Claim C2 says that a point set with two equal \<open>x\<close>-values makes the pipeline return the
  tagged failure \<open>DuplicateAbscissa\<close>.  Neither \<open>get_points\<close> nor
  \<open>compute_lagrange_polynomial\<close> compares abscissas, and no such failure exists in the
  program.  For the points \<open>(0,1)\<close> and \<open>(0,2)\<close>, \<open>get_points\<close> returns both points and
  \<open>interpolate_lagrange\<close> runs to its end and shows a result, the non-finite expression
  that the division by the zero denominator leaves.
\<close>

theorem duplicate_abscissa_counterexample:
  "get_points [(Inr 0, Inr 1), (Inr 0, Inr 2)] = Inr (Some [(0, 1), (0, 2)]) \<and>
   interpolate_lagrange (Inr 3) [(Inr 0, Inr 1), (Inr 0, Inr 2)] =
     Inr (Some (Non_finite, No_finite_value, Finite False 6755399441055744 (- 51)))"
  by (simp add: interpolate_lagrange_def get_points_def float_of_literal_3 builder_eval)

text \<open>
  Claim C2 as amended: for every point set that contains two points with equal \<open>x\<close>-values,
  \<open>get_points\<close> returns the points as they were entered, \<open>compute_lagrange_polynomial\<close>
  raises no exception and returns neither a polynomial nor a number but a non-finite
  expression, and \<open>interpolate_lagrange\<close> shows that expression with a non-finite result,
  whatever number is entered as abscissa.
\<close>

theorem duplicate_abscissa:
  assumes "i < length points" "j < length points" "i \<noteq> j" "fst (points ! i) = fst (points ! j)"
  shows "get_points (entries points) = Inr (Some points) \<and>
         compute_lagrange_polynomial points = Inr Non_finite \<and>
         interpolate_lagrange (Inr q) (entries points) =
           Inr (Some (Non_finite, No_finite_value, float_of_literal q))"
proof -
  have n: "2 \<le> length points"
    using assms(1-3) by linarith
  have "lagrange_poly_loop points [0..<length points] Py_zero = Inr Non_finite"
    using assms(1) duplicate_denominator [OF assms]
    by (intro loop_zero_denominator [OF n]) (auto simp: symbolic_def)
  then have c: "compute_lagrange_polynomial points = Inr Non_finite"
    by (simp add: compute_lagrange_polynomial_def)
  moreover have "points \<noteq> []"
    using assms(1) by auto
  ultimately show ?thesis
    by (simp add: interpolate_lagrange_def get_points_entries Let_def)
qed

theorem duplicate_abscissa_witness:
  "compute_lagrange_polynomial [(1, 1), (2, 3), (1, 5)] = Inr Non_finite \<and>
   get_points (entries [(1, 1), (2, 3), (1, 5)]) = Inr (Some [(1, 1), (2, 3), (1, 5)]) \<and>
   interpolate_lagrange (Inr 0) (entries [(1, 1), (2, 3), (1, 5)]) =
     Inr (Some (Non_finite, No_finite_value, float_of_literal 0))"
  using duplicate_abscissa [of 0 "[(1, 1), (2, 3), (1, 5)]" 2 0]
  by simp

text \<open>
  Claim C3 says that for the points \<open>(0,1)\<close>, \<open>(1,2)\<close>, \<open>(2,5)\<close> the builder produces
  \<open>x\<^sup>2 + x + 1\<close>, which evaluates to \<open>13\<close> at \<open>3\<close>.  The builder does not produce that
  polynomial, and that polynomial is no interpolant of the three points: at \<open>1\<close> it takes
  the value \<open>3\<close>, not \<open>2\<close>.
\<close>

theorem example_polynomial_counterexample:
  "compute_lagrange_polynomial [(0, 1), (1, 2), (2, 5)] \<noteq> Inr (Polynomial [1, 1, 1]) \<and>
   poly_eval [1, 1, 1] 1 \<noteq> 2"
  by (simp add: builder_eval)

text \<open>
  Claim C3 as amended: for the points \<open>(0,1)\<close>, \<open>(1,2)\<close>, \<open>(2,5)\<close> the builder produces
  \<open>x\<^sup>2 + 1\<close>, which passes through the three points and has the value \<open>10\<close> at \<open>3\<close>;
  \<open>interpolate_lagrange\<close> with \<open>3\<close> in the field of the abscissa shows that polynomial and
  a floating-point result for the value \<open>10\<close> at \<open>x_val = 3.0\<close>.
\<close>

theorem example_polynomial:
  "compute_lagrange_polynomial [(0, 1), (1, 2), (2, 5)] = Inr (Polynomial [1, 0, 1]) \<and>
   poly_eval [1, 0, 1] 0 = 1 \<and> poly_eval [1, 0, 1] 1 = 2 \<and> poly_eval [1, 0, 1] 2 = 5 \<and>
   poly_eval [1, 0, 1] 3 = 10 \<and>
   interpolate_lagrange (Inr 3) [(Inr 0, Inr 1), (Inr 1, Inr 2), (Inr 2, Inr 5)] =
     Inr (Some (Polynomial [1, 0, 1], Float_near 10, Finite False 6755399441055744 (- 51)))"
  by (simp add: interpolate_lagrange_def get_points_def float_of_literal_3 builder_eval valof_def)

section \<open>The order of the points\<close>

text \<open>
  Claim C4: for every point set with pairwise distinct abscissas and every rearrangement
  of it, \<open>compute_lagrange_polynomial\<close> returns the same result for the rearranged list as
  for the original one: the same canonical list of coefficients (and, for a single point,
  the same float).
\<close>

theorem permutation_invariance:
  assumes "distinct (map fst points)" and "mset points' = mset points"
  shows "compute_lagrange_polynomial points' = compute_lagrange_polynomial points"
proof (cases "2 \<le> length points")
  case False
  then have "length points \<le> 1" by simp
  then have "points' = points"
    using assms(2) by (rule short_list_permutation)
  then show ?thesis by simp
next
  case True
  have len: "length points' = length points"
    using assms(2) by (rule mset_eq_length)
  have "mset (map fst points') = mset (map fst points)"
    using assms(2) by (metis mset_map)
  then have d': "distinct (map fst points')"
    using assms(1) by (metis mset_eq_imp_distinct_iff)
  have sets: "set points' = set points"
    using assms(2) by (rule mset_eq_setD)
  have pos: "0 < length points"
    using True by linarith
  have same: "poly_eval (lagrange_sum points') x = poly_eval (lagrange_sum points) x"
    if "x \<in> set (map fst points)" for x
  proof -
    from that obtain k where k: "k < length points" "x = fst (points ! k)"
      by (auto simp: in_set_conv_nth)
    then have "points ! k \<in> set points'"
      using sets by simp
    then obtain k' where k': "k' < length points'" "points' ! k' = points ! k"
      by (auto simp: in_set_conv_nth)
    have "poly_eval (lagrange_sum points') (fst (points' ! k')) = snd (points' ! k')"
      using True len d' k'(1) by (intro lagrange_sum_at_node) simp_all
    moreover have "poly_eval (lagrange_sum points) (fst (points ! k)) = snd (points ! k)"
      by (rule lagrange_sum_at_node [OF True assms(1) k(1)])
    ultimately show ?thesis
      using k(2) k'(2) by simp
  qed
  have "lagrange_sum points' = lagrange_sum points"
  proof (rule polynomial_unique [of _ _ "map fst points"])
    show "length (lagrange_sum points') = length (lagrange_sum points)"
      using pos len by (simp add: length_lagrange_sum)
    show "length (lagrange_sum points') \<le> length (map fst points)"
      using pos len by (simp add: length_lagrange_sum)
    show "distinct (map fst points)"
      by (rule assms(1))
    show "\<forall>x\<in>set (map fst points). poly_eval (lagrange_sum points') x = poly_eval (lagrange_sum points) x"
      using same by blast
  qed
  then show ?thesis
    using True len d' assms(1) by (simp add: compute_distinct)
qed

theorem permutation_invariance_witness:
  "compute_lagrange_polynomial [(2, 5), (0, 1), (1, 2)] = compute_lagrange_polynomial [(0, 1), (1, 2), (2, 5)] \<and>
   compute_lagrange_polynomial [(2, 5), (0, 1), (1, 2)] = Inr (Polynomial [1, 0, 1])"
proof -
  have "mset [(2, 5), (0, 1), (1, 2)] = mset [(0::rat, 1::rat), (1, 2), (2, 5)]"
    by simp
  moreover have "distinct (map fst [(0::rat, 1::rat), (1, 2), (2, 5)])"
    by simp
  ultimately have "compute_lagrange_polynomial [(2, 5), (0, 1), (1, 2)] = compute_lagrange_polynomial [(0, 1), (1, 2), (2, 5)]"
    by (rule permutation_invariance [rotated])
  moreover have "compute_lagrange_polynomial [(0, 1), (1, 2), (2, 5)] = Inr (Polynomial [1, 0, 1])"
    by (simp add: builder_eval)
  ultimately show ?thesis
    by simp
qed

text \<open>
  Claim C5 says that a single point \<open>(x\<^sub>0, y\<^sub>0)\<close> gives the constant polynomial \<open>y\<^sub>0\<close>.  With
  one point the inner loop multiplies nothing in, \<open>numerator / denominator\<close> is the
  division \<open>1 / 1\<close> of two Python integers, a float, and the product with the \<open>Fraction\<close>
  \<open>y\<^sub>0\<close> is the float nearest to \<open>y\<^sub>0\<close>.  For the point \<open>(0, 1/3)\<close> the builder returns the
  float \<open>6004799503160661 / 2\<^sup>5\<^sup>4\<close>, which is not \<open>1/3\<close>; with a second point of the same
  ordinate the same loop returns the exact constant \<open>1/3\<close>.
\<close>

theorem single_point_is_float:
  "compute_lagrange_polynomial [(0, 1 / 3)] =
     Inr (Float_const (Finite False 6004799503160661 (- 54))) \<and>
   valof (Finite False 6004799503160661 (- 54)) \<noteq> 1 / 3 \<and>
   compute_lagrange_polynomial [(0, 1 / 3), (1, 1 / 3)] = Inr (Polynomial [1 / 3])"
  by code_simp

section \<open>The numeric evaluator on an empty series\<close>

text \<open>
  Claim C8 says that \<open>lagrange_interpolation\<close>, called with an empty \<open>x_data\<close>, returns a
  tagged failure \<open>EmptyInput\<close> and no numeric value.  The function has no such check: with
  \<open>n = 0\<close> the loop body never runs and the initial \<open>result = 0\<close> is returned.  For the
  abscissa \<open>0\<close> and two empty lists the call returns the integer \<open>0\<close>, which is not a
  failure.
\<close>

theorem lagrange_interpolation_empty_counterexample:
  "lagrange_interpolation 0 [] [] = Inr (PyInt 0) \<and> \<not> isl (lagrange_interpolation 0 [] [])"
  by (simp add: lagrange_interpolation_def)

text \<open>
  Claim C8 as amended: when \<open>x_data\<close> is empty, \<open>lagrange_interpolation\<close> returns the
  integer \<open>0\<close>, whatever the abscissa and \<open>y_data\<close> are.
\<close>

theorem lagrange_interpolation_empty:
  "lagrange_interpolation x [] y_data = Inr (PyInt 0)"
  by (simp add: lagrange_interpolation_def)

section \<open>Dates as day numbers\<close>

subsection \<open>The Gregorian ordinal grows with the calendar\<close>

lemma days_in_month_bounds: "28 \<le> days_in_month y m" "days_in_month y m \<le> 31"
  by (simp_all add: days_in_month_def)

lemma days_before_month_next:
  "1 \<le> m \<Longrightarrow> days_before_month y (m + 1) = days_before_month y m + days_in_month y m"
proof -
  assume "1 \<le> m"
  then have "[1..m] = [1..m - 1] @ [m]"
    by (simp add: upto_rec2)
  then show ?thesis
    by (simp add: days_before_month_def)
qed

lemma days_before_month_mono:
  assumes "m \<le> n" and "1 \<le> m"
  shows "days_before_month y m \<le> days_before_month y n"
  using assms
proof (induction n rule: int_ge_induct)
  case base
  show ?case by simp
next
  case (step k)
  have "days_before_month y (k + 1) = days_before_month y k + days_in_month y k"
    using step.hyps step.prems by (intro days_before_month_next) linarith
  with step days_in_month_bounds(1) [of y k] show ?case
    by linarith
qed

lemma days_before_month_13:
  "days_before_month y 13 = (if is_leap y then 366 else 365)"
  by (simp add: days_before_month_def upto_rec1 days_in_month_def)

lemma div_step:
  fixes n k :: int
  assumes "0 < k"
  shows "n div k = (n - 1) div k + (if n mod k = 0 then 1 else 0)"
proof -
  have r: "0 \<le> n mod k" "n mod k < k"
    using assms by simp_all
  have n: "n = k * (n div k) + n mod k"
    by simp
  show ?thesis
  proof (cases "n mod k = 0")
    case True
    have "n - 1 = k * (n div k - 1) + (k - 1)"
      using n True by (simp add: algebra_simps)
    then have "(n - 1) div k = n div k - 1"
      using assms by (intro int_div_pos_eq [where r = "k - 1"]) simp_all
    with True show ?thesis
      by simp
  next
    case False
    have "n - 1 = k * (n div k) + (n mod k - 1)"
      using n by simp
    then have "(n - 1) div k = n div k"
      using r False by (intro int_div_pos_eq [where r = "n mod k - 1"]) simp_all
    with False show ?thesis
      by simp
  qed
qed



lemma days_before_year_next:
  "days_before_year (y + 1) = days_before_year y + (if is_leap y then 366 else 365)"
proof -
  define a b c where "a = (y - 1) div 4" and "b = (y - 1) div 100" and "c = (y - 1) div 400"
  have d4: "y div 4 = a + (if 4 dvd y then 1 else 0)"
    unfolding a_def using div_step [of 4 y] by (simp add: mod_eq_0_iff_dvd)
  have d100: "y div 100 = b + (if 100 dvd y then 1 else 0)"
    unfolding b_def using div_step [of 100 y] by (simp add: mod_eq_0_iff_dvd)
  have d400: "y div 400 = c + (if 400 dvd y then 1 else 0)"
    unfolding c_def using div_step [of 400 y] by (simp add: mod_eq_0_iff_dvd)
  have e1: "days_before_year (y + 1) = y * 365 + y div 4 - y div 100 + y div 400"
    by (simp add: days_before_year_def)
  have e0: "days_before_year y = (y - 1) * 365 + a - b + c"
    by (simp add: days_before_year_def Let_def a_def b_def c_def)
  have leap: "is_leap y = (4 dvd y \<and> (\<not> 100 dvd y \<or> 400 dvd y))"
    by (simp add: is_leap_def mod_eq_0_iff_dvd)
  have imp: "100 dvd y \<Longrightarrow> 4 dvd y" "400 dvd y \<Longrightarrow> 100 dvd y"
    by (erule dvd_trans [rotated], simp)+
  show ?thesis
  proof (cases "4 dvd y")
    case False
    with imp have "\<not> 100 dvd y" "\<not> 400 dvd y" "\<not> is_leap y"
      by (auto simp only: leap)
    with False d4 d100 d400 have "y div 4 = a" "y div 100 = b" "y div 400 = c"
      by (simp_all only: if_False add_0_right)
    with \<open>\<not> is_leap y\<close> show ?thesis
      by (simp only: e1 e0 if_False) (simp add: algebra_simps)
  next
    case y4: True
    show ?thesis
    proof (cases "100 dvd y")
      case False
      with imp y4 have "\<not> 400 dvd y" "is_leap y"
        by (auto simp only: leap)
      with False y4 d4 d100 d400 have "y div 4 = a + 1" "y div 100 = b" "y div 400 = c"
        by (simp_all only: if_False if_True add_0_right)
      with \<open>is_leap y\<close> show ?thesis
        by (simp only: e1 e0 if_True) (simp add: algebra_simps)
    next
      case y100: True
      show ?thesis
      proof (cases "400 dvd y")
        case False
        with y100 y4 have "\<not> is_leap y"
          by (auto simp only: leap)
        from False y100 y4 d4 d100 d400 have "y div 4 = a + 1" "y div 100 = b + 1" "y div 400 = c"
          by (simp_all only: if_False if_True add_0_right)
        with \<open>\<not> is_leap y\<close> show ?thesis
          by (simp only: e1 e0 if_False) (simp add: algebra_simps)
      next
        case True
        with y100 y4 have "is_leap y"
          by (auto simp only: leap)
        from True y100 y4 d4 d100 d400 have "y div 4 = a + 1" "y div 100 = b + 1" "y div 400 = c + 1"
          by (simp_all only: if_False if_True add_0_right)
        with \<open>is_leap y\<close> show ?thesis
          by (simp only: e1 e0 if_True) (simp add: algebra_simps)
      qed
    qed
  qed
qed

lemma days_before_year_mono:
  assumes "y \<le> z"
  shows "days_before_year y \<le> days_before_year z"
  using assms
proof (induction z rule: int_ge_induct)
  case base
  show ?case by simp
next
  case (step k)
  then show ?case
    by (simp add: days_before_year_next)
qed

lemma day_of_year_le:
  assumes "valid_date (y, m, d)"
  shows "days_before_month y m + d \<le> (if is_leap y then 366 else 365)"
proof -
  from assms have m: "1 \<le> m" "m + 1 \<le> 13" and d: "d \<le> days_in_month y m"
    by (simp_all add: valid_date_def)
  have "days_before_month y m + d \<le> days_before_month y (m + 1)"
    using days_before_month_next [OF m(1)] d by simp
  also have "\<dots> \<le> days_before_month y 13"
    using m by (intro days_before_month_mono) simp_all
  finally show ?thesis
    by (simp only: days_before_month_13)
qed

lemma days_before_month_nonneg: "1 \<le> m \<Longrightarrow> 0 \<le> days_before_month y m"
  using days_before_month_mono [of 1 m y] by (simp add: days_before_month_def)

lemma ymd2ord_strict_mono:
  assumes a: "valid_date a" and b: "valid_date b" and less: "date_less a b"
  shows "ymd2ord a < ymd2ord b"
proof -
  obtain y1 m1 d1 where a_eq: "a = (y1, m1, d1)" by (cases a)
  obtain y2 m2 d2 where b_eq: "b = (y2, m2, d2)" by (cases b)
  from a b have va: "1 \<le> m1" "1 \<le> d1" "d1 \<le> days_in_month y1 m1"
    and vb: "1 \<le> m2" "1 \<le> d2"
    by (simp_all add: valid_date_def a_eq b_eq)
  consider "y1 < y2" | "y1 = y2" "m1 < m2" | "y1 = y2" "m1 = m2" "d1 < d2"
    using less by (auto simp: date_less_def a_eq b_eq)
  then show ?thesis
  proof cases
    case 1
    have "ymd2ord a \<le> days_before_year y1 + (if is_leap y1 then 366 else 365)"
      using day_of_year_le [of y1 m1 d1] a by (simp add: ymd2ord_def a_eq)
    also have "\<dots> = days_before_year (y1 + 1)"
      by (simp add: days_before_year_next)
    also have "\<dots> \<le> days_before_year y2"
      using 1 by (intro days_before_year_mono) simp
    also have "\<dots> < ymd2ord b"
      using vb days_before_month_nonneg [of m2 y2] by (simp add: ymd2ord_def b_eq)
    finally show ?thesis .
  next
    case 2
    have "days_before_month y1 m1 + d1 \<le> days_before_month y1 (m1 + 1)"
      using days_before_month_next [OF va(1)] va(3) by simp
    also have "\<dots> \<le> days_before_month y1 m2"
      using 2 va by (intro days_before_month_mono) simp_all
    finally show ?thesis
      using 2 vb by (simp add: ymd2ord_def a_eq b_eq)
  next
    case 3
    then show ?thesis
      by (simp add: ymd2ord_def a_eq b_eq)
  qed
qed

subsection \<open>Reading a date\<close>

lemma strptime_valid: "strptime s = Inr d \<Longrightarrow> valid_date d"
  by (auto simp: strptime_def Let_def split: list.splits if_splits prod.splits)

lemma decimal_value_ascii:
  "48 \<le> c \<Longrightarrow> c \<le> 57 \<Longrightarrow> decimal_value c = Some (int c - 48)"
  by (simp add: decimal_value_def unicode_decimal_zeros_def)

lemma digit_char_digit:
  assumes "0 \<le> k" and "k \<le> 9"
  shows "digit (digit_char k)" and "digit_value (digit_char k) = k"
  using assms decimal_value_ascii [of "nat (48 + k)"]
  by (simp_all add: digit_def digit_value_def digit_char_def)

lemmas text_eval = digit_char_def in_range_def digit_def digit_value_def decimal_value_ascii

lemma month_text:
  assumes "1 \<le> m" and "m \<le> 12"
  shows "\<exists>t. month_alternatives (digit_char (m div 10) # digit_char (m mod 10) # of_char CHR ''-'' # r)
           = (m, of_char CHR ''-'' # r) # t \<and> (\<forall>(v, r1)\<in>set t. r1 \<noteq> [] \<and> hd r1 \<noteq> of_char CHR ''-'')"
proof -
  from assms have "m = 1 \<or> m = 2 \<or> m = 3 \<or> m = 4 \<or> m = 5 \<or> m = 6 \<or> m = 7 \<or> m = 8 \<or> m = 9 \<or> m = 10 \<or> m = 11 \<or> m = 12"
    by arith
  then show ?thesis
    by (elim disjE) (simp_all add: month_alternatives_def text_eval)
qed

lemma day_text:
  assumes "1 \<le> d" and "d \<le> 31"
  shows "\<exists>t. day_alternatives [digit_char (d div 10), digit_char (d mod 10)] = (d, []) # t"
proof -
  from assms have "d = 1 \<or> d = 2 \<or> d = 3 \<or> d = 4 \<or> d = 5 \<or> d = 6 \<or> d = 7 \<or> d = 8 \<or> d = 9 \<or> d = 10 \<or> d = 11 \<or> d = 12 \<or> d = 13 \<or> d = 14 \<or> d = 15 \<or> d = 16 \<or> d = 17 \<or> d = 18 \<or> d = 19 \<or> d = 20 \<or> d = 21 \<or> d = 22 \<or> d = 23 \<or> d = 24 \<or> d = 25 \<or> d = 26 \<or> d = 27 \<or> d = 28 \<or> d = 29 \<or> d = 30 \<or> d = 31"
    by arith
  then show ?thesis
    by (elim disjE) (simp_all add: day_alternatives_def text_eval)
qed

lemma year_digits:
  fixes y :: int
  shows "1000 * (y div 1000) + 100 * (y div 100 mod 10) + 10 * (y div 10 mod 10) + y mod 10 = y"
proof -
  have a: "y = 10 * (y div 10) + y mod 10" by simp
  have e1: "y div 100 = y div 10 div 10"
    using zdiv_zmult2_eq [of 10 y 10] by simp
  have e2: "y div 1000 = y div 100 div 10"
    using zdiv_zmult2_eq [of 10 y 100] by simp
  have b: "y div 10 = 10 * (y div 100) + y div 10 mod 10"
    unfolding e1 by simp
  have c: "y div 100 = 10 * (y div 1000) + y div 100 mod 10"
    unfolding e2 by simp
  show ?thesis
    using a b c by linarith
qed

lemma dash: "of_char CHR ''-'' = (45::nat)"
  by simp

lemma yd:
  fixes y :: int
  assumes "1 \<le> y" "y \<le> 9999"
  shows "0 \<le> y div 1000" "y div 1000 \<le> 9" "0 \<le> y div 100 mod 10" "y div 100 mod 10 \<le> 9"
    "0 \<le> y div 10 mod 10" "y div 10 mod 10 \<le> 9" "0 \<le> y mod 10" "y mod 10 \<le> 9"
  using assms by simp_all

lemma strptime_iso_text:
  assumes "valid_date d"
  shows "strptime (iso_text d) = Inr d"
proof -
  obtain y m dd where d: "d = (y, m, dd)" by (cases d)
  from assms have y: "1 \<le> y" "y \<le> 9999" and m: "1 \<le> m" "m \<le> 12" and dd: "1 \<le> dd" "dd \<le> 31"
    using days_in_month_bounds(2) [of y m] by (auto simp: valid_date_def d)
  note yd = yd [OF y]
  define c1 c2 c3 c4 where "c1 = digit_char (y div 1000)" and "c2 = digit_char (y div 100 mod 10)"
    and "c3 = digit_char (y div 10 mod 10)" and "c4 = digit_char (y mod 10)"
  define d1 d2 where "d1 = digit_char (dd div 10)" and "d2 = digit_char (dd mod 10)"
  define r where "r = [45, digit_char (m div 10), digit_char (m mod 10), 45, d1, d2]"
  have s: "iso_text d = c1 # c2 # c3 # c4 # r"
    by (simp add: iso_text_def d r_def c1_def c2_def c3_def c4_def d1_def d2_def)
  note dv = digit_char_digit(2) [OF yd(1,2)] digit_char_digit(2) [OF yd(3,4)]
    digit_char_digit(2) [OF yd(5,6)] digit_char_digit(2) [OF yd(7,8)]
  have dig: "digit c1" "digit c2" "digit c3" "digit c4"
    unfolding c1_def c2_def c3_def c4_def
    by (rule digit_char_digit(1) [OF yd(1,2)] digit_char_digit(1) [OF yd(3,4)]
        digit_char_digit(1) [OF yd(5,6)] digit_char_digit(1) [OF yd(7,8)])+
  have val: "1000 * digit_value c1 + 100 * digit_value c2 + 10 * digit_value c3 + digit_value c4 = y"
    unfolding c1_def c2_def c3_def c4_def by (simp only: dv year_digits)
  from month_text [OF m, of "[d1, d2]"] obtain tm
    where tm: "month_alternatives [digit_char (m div 10), digit_char (m mod 10), 45, d1, d2] = (m, [45, d1, d2]) # tm"
      and tm': "\<forall>(v, r1)\<in>set tm. r1 \<noteq> [] \<and> hd r1 \<noteq> 45"
    by (auto simp only: dash)
  from day_text [OF dd] obtain td where td: "day_alternatives [d1, d2] = (dd, []) # td"
    unfolding d1_def d2_def by blast
  have "\<exists>X. [(m', d', r3). (m', r1) \<leftarrow> month_alternatives (tl r), r \<noteq> [] \<and> hd r = of_char CHR ''-'',
                     r1 \<noteq> [] \<and> hd r1 = of_char CHR ''-'',
                     (d', r3) \<leftarrow> day_alternatives (tl r1)] = (m, dd, []) # X"
    by (simp add: r_def tm td)
  then obtain X where comp: "[(m', d', r3). (m', r1) \<leftarrow> month_alternatives (tl r), r \<noteq> [] \<and> hd r = of_char CHR ''-'',
                     r1 \<noteq> [] \<and> hd r1 = of_char CHR ''-'',
                     (d', r3) \<leftarrow> day_alternatives (tl r1)] = (m, dd, []) # X"
    by blast
  show ?thesis
    unfolding strptime_def s using assms dig
    by (simp only: list.case if_True comp prod.case Let_def val d simp_thms)
qed

lemma date_to_num_iso_text:
  "valid_date d \<Longrightarrow> date_to_num (iso_text d) = Inr (ymd2ord d - 730851)"
  by (simp add: date_to_num_def strptime_iso_text days_since_ref_def ref_date_def ymd2ord_def
      days_before_year_def days_before_month_def)

lemma ymd2ord_tomorrow:
  assumes "valid_date d"
  shows "ymd2ord (tomorrow d) = ymd2ord d + 1"
proof -
  obtain y m dd where d: "d = (y, m, dd)" by (cases d)
  from assms have m: "1 \<le> m" "m \<le> 12" and dd: "dd \<le> days_in_month y m"
    by (simp_all add: valid_date_def d)
  consider "dd < days_in_month y m" | "dd = days_in_month y m" "m < 12" | "dd = days_in_month y m" "m = 12"
    using m dd by linarith
  then show ?thesis
  proof cases
    case 1
    then show ?thesis by (simp add: tomorrow_def d ymd2ord_def)
  next
    case 2
    then show ?thesis
      using days_before_month_next [OF m(1), of y] by (simp add: tomorrow_def d ymd2ord_def)
  next
    case 3
    have "days_before_month y 13 = days_before_month y 12 + days_in_month y 12"
      using days_before_month_next [of 12 y] by simp
    moreover have "days_before_month (y + 1) 1 = 0"
      by (simp add: days_before_month_def)
    ultimately show ?thesis
      using 3 days_before_year_next [of y] days_before_month_13 [of y]
      by (simp add: tomorrow_def d ymd2ord_def)
  qed
qed

text \<open>
  Claim C9: \<open>date_to_num\<close> is strictly order-preserving.  For every two valid calendar
  dates \<open>a\<close> and \<open>b\<close> with \<open>a\<close> before \<open>b\<close> in calendar order, \<open>date_to_num\<close> accepts the text
  \<open>YYYY-MM-DD\<close> of each and returns a smaller number for \<open>a\<close> than for \<open>b\<close>; every other
  text that is read as the same date gives the same number.  The numbers are day offsets
  from 2002-01-01: that date has the number \<open>0\<close>, and the day after \<open>a\<close> has the number of
  \<open>a\<close> plus one.
\<close>

theorem date_to_num_order_preserving:
  assumes "valid_date a" and "valid_date b" and "date_less a b"
  shows "\<exists>na nb. date_to_num (iso_text a) = Inr na \<and> date_to_num (iso_text b) = Inr nb \<and> na < nb
           \<and> (\<forall>s. strptime s = Inr a \<longrightarrow> date_to_num s = Inr na)
           \<and> (\<forall>s. strptime s = Inr b \<longrightarrow> date_to_num s = Inr nb)
           \<and> date_to_num (iso_text (2002, 1, 1)) = Inr 0
           \<and> (valid_date (tomorrow a) \<longrightarrow> date_to_num (iso_text (tomorrow a)) = Inr (na + 1))"
proof -
  have ref: "valid_date (2002, 1, 1)" "ymd2ord (2002, 1, 1) = 730851"
    by (simp_all add: valid_date_def days_in_month_def ymd2ord_def days_before_year_def
        days_before_month_def)
  have same: "date_to_num s = Inr (ymd2ord d - 730851)" if "strptime s = Inr d" for s d
    using that by (simp add: date_to_num_def days_since_ref_def ref_date_def ref(2))
  show ?thesis
    using assms ymd2ord_strict_mono [OF assms] ymd2ord_tomorrow [OF assms(1)]
    by (simp add: date_to_num_iso_text ref same)
qed

theorem date_to_num_order_preserving_witness:
  "valid_date (2004, 2, 29) \<and> valid_date (2004, 3, 1) \<and> date_less (2004, 2, 29) (2004, 3, 1) \<and>
   tomorrow (2004, 2, 29) = (2004, 3, 1) \<and>
   date_to_num (ascii ''2004-02-29'') = Inr 789 \<and> date_to_num (ascii ''2004-03-01'') = Inr 790"
proof -
  have v: "valid_date (2004, 2, 29)" "valid_date (2004, 3, 1)" "date_less (2004, 2, 29) (2004, 3, 1)"
    "tomorrow (2004, 2, 29) = (2004, 3, 1)"
    by (simp_all add: valid_date_def days_in_month_def is_leap_def date_less_def tomorrow_def)
  have t: "iso_text (2004, 2, 29) = ascii ''2004-02-29''" "iso_text (2004, 3, 1) = ascii ''2004-03-01''"
    by (simp_all add: iso_text_def digit_char_def ascii_def)
  have o: "ymd2ord (2004, 2, 29) = 731640" "ymd2ord (2004, 3, 1) = 731641"
    by (simp_all add: ymd2ord_def days_before_year_def days_before_month_def upto_rec1
        days_in_month_def is_leap_def)
  from date_to_num_order_preserving [OF v(1,2,3)] v show ?thesis
    by (simp add: t date_to_num_iso_text [OF v(1), unfolded t] date_to_num_iso_text [OF v(2), unfolded t] o)
qed

end
